theory Spec2Isabelle
  imports Main "HOL-Library.Sublist"
begin

section \<open>Agent service orchestration (pkg/fleet/installer/service/datadog_agent.go)\<close>

subsection \<open>Unit registry\<close>

definition agentUnit :: string where "agentUnit = ''datadog-agent.service''"
definition traceAgentUnit :: string where "traceAgentUnit = ''datadog-agent-trace.service''"
definition processAgentUnit :: string where "processAgentUnit = ''datadog-agent-process.service''"
definition systemProbeUnit :: string where "systemProbeUnit = ''datadog-agent-sysprobe.service''"
definition securityAgentUnit :: string where "securityAgentUnit = ''datadog-agent-security.service''"
definition agentExp :: string where "agentExp = ''datadog-agent-exp.service''"
definition traceAgentExp :: string where "traceAgentExp = ''datadog-agent-trace-exp.service''"
definition processAgentExp :: string where "processAgentExp = ''datadog-agent-process-exp.service''"
definition systemProbeExp :: string where "systemProbeExp = ''datadog-agent-sysprobe-exp.service''"
definition securityAgentExp :: string where "securityAgentExp = ''datadog-agent-security-exp.service''"

definition stableUnits :: "string list" where
  "stableUnits =
     [agentUnit, traceAgentUnit, processAgentUnit, systemProbeUnit, securityAgentUnit]"

definition experimentalUnits :: "string list" where
  "experimentalUnits =
     [agentExp, traceAgentExp, processAgentExp, systemProbeExp, securityAgentExp]"

subsection \<open>Errors, external calls and the host\<close>

text \<open>
  A Go \<open>error\<close> is observed through its \<open>Error()\<close> text only: that is what the
  \<open>%s\<close> verb of \<open>fmt.Errorf\<close> and of the logger prints.
\<close>

datatype error = Error (message: string)

text \<open>
  Every call that leaves the package: the process started by \<open>exec.Command\<close>, the
  privileged helper, the six unit primitives, the service-manager reload, the symlink
  helpers and the two \<open>installinfo\<close> functions.
\<close>

datatype call =
    Exec string "string list"
  | Helper string
  | Load string
  | Enable string
  | Start string
  | Stop string
  | Disable string
  | Remove string
  | Reload
  | CreateSymlink
  | RmSymlink
  | WriteInfo string string
  | RmInfo

datatype log_entry =
    Errorf string
  | Warnf string
  | SpanStart string
  | SpanFinish "error option"

text \<open>
  The state threaded through the code: the external calls made so far, in order, and what
  was handed to the logger and the tracer.
\<close>

record world =
  calls :: "call list"
  logs :: "log_entry list"

text \<open>
  The host is a parameter. It answers a call from the calls made before it, so a host
  whose answers change with its own state is covered. \<open>addInstallerToAgentGroup\<close> is
  a constant of the package declared in another file; it is a field of the host too.
\<close>

record env =
  addInstallerToAgentGroup :: string
  stdout :: "call list \<Rightarrow> call \<Rightarrow> string"
  failure :: "call list \<Rightarrow> call \<Rightarrow> error option"

type_synonym action = "world \<Rightarrow> error option \<times> world"

definition external :: "env \<Rightarrow> call \<Rightarrow> action" where
  "external e c w = (failure e (calls w) c, w\<lparr>calls := calls w @ [c]\<rparr>)"

definition logging :: "log_entry \<Rightarrow> world \<Rightarrow> world" where
  "logging l w = w\<lparr>logs := logs w @ [l]\<rparr>"

definition loadUnit :: "env \<Rightarrow> string \<Rightarrow> action" where
  "loadUnit e unit = external e (Load unit)"

definition enableUnit :: "env \<Rightarrow> string \<Rightarrow> action" where
  "enableUnit e unit = external e (Enable unit)"

definition startUnit :: "env \<Rightarrow> string \<Rightarrow> action" where
  "startUnit e unit = external e (Start unit)"

definition stopUnit :: "env \<Rightarrow> string \<Rightarrow> action" where
  "stopUnit e unit = external e (Stop unit)"

definition disableUnit :: "env \<Rightarrow> string \<Rightarrow> action" where
  "disableUnit e unit = external e (Disable unit)"

definition removeUnit :: "env \<Rightarrow> string \<Rightarrow> action" where
  "removeUnit e unit = external e (Remove unit)"

definition systemdReload :: "env \<Rightarrow> action" where
  "systemdReload e = external e Reload"

definition createAgentSymlink :: "env \<Rightarrow> action" where
  "createAgentSymlink e = external e CreateSymlink"

definition rmAgentSymlink :: "env \<Rightarrow> action" where
  "rmAgentSymlink e = external e RmSymlink"

definition executeHelperCommand :: "env \<Rightarrow> string \<Rightarrow> action" where
  "executeHelperCommand e command = external e (Helper command)"

definition WriteInstallInfo :: "env \<Rightarrow> string \<Rightarrow> string \<Rightarrow> action" where
  "WriteInstallInfo e tool version = external e (WriteInfo tool version)"

text \<open>\<open>installinfo.RmInstallInfo()\<close> returns nothing.\<close>

definition RmInstallInfo :: "world \<Rightarrow> world" where
  "RmInstallInfo w = w\<lparr>calls := calls w @ [RmInfo]\<rparr>"

text \<open>\<open>exec.Command(name, args...).Output()\<close>: the standard output and the error.\<close>

definition exec_Output :: "env \<Rightarrow> string \<Rightarrow> string list \<Rightarrow> world \<Rightarrow> (string \<times> error option) \<times> world" where
  "exec_Output e name args w =
     ((stdout e (calls w) (Exec name args), failure e (calls w) (Exec name args)),
      w\<lparr>calls := calls w @ [Exec name args]\<rparr>)"

subsection \<open>Formatting\<close>

text \<open>
  The \<open>%s\<close> verb, the only one the file uses; the operands are already strings (an
  error operand is its \<open>Error()\<close> text).
\<close>

fun Sprintf :: "string \<Rightarrow> string list \<Rightarrow> string" where
  "Sprintf [] args = []"
| "Sprintf [c] args = [c]"
| "Sprintf (c # d # fs) args =
     (if c = CHR ''%'' \<and> d = CHR ''s''
      then (case args of
              [] \<Rightarrow> ''%!s(MISSING)'' @ Sprintf fs []
            | a # as \<Rightarrow> a @ Sprintf fs as)
      else c # Sprintf (d # fs) args)"

definition fmt_Errorf :: "string \<Rightarrow> string list \<Rightarrow> error" where
  "fmt_Errorf format args = Error (Sprintf format args)"

definition strings_Contains :: "string \<Rightarrow> string \<Rightarrow> bool" where
  "strings_Contains s substr = sublist substr s"

subsection \<open>Sequencing\<close>

text \<open>\<open>if err = step; err != nil { return }\<close> followed by the rest of the function.\<close>

definition andThen :: "action \<Rightarrow> action \<Rightarrow> action" where
  "andThen step rest w =
     (case step w of
        (Some err, w') \<Rightarrow> (Some err, w')
      | (None, w') \<Rightarrow> rest w')"

text \<open>\<open>for _, unit := range units { if err := body; err != nil { return err } }\<close>\<close>

fun rangeUnits :: "(string \<Rightarrow> action) \<Rightarrow> string list \<Rightarrow> action" where
  "rangeUnits body [] w = (None, w)"
| "rangeUnits body (unit # units) w =
     (case body unit w of
        (Some err, w') \<Rightarrow> (Some err, w')
      | (None, w') \<Rightarrow> rangeUnits body units w')"

text \<open>\<open>if err := step; err != nil { return fmt.Errorf(format, args..., err) }\<close>\<close>

definition wrapping :: "string \<Rightarrow> string list \<Rightarrow> action \<Rightarrow> action" where
  "wrapping format args step w =
     (case step w of
        (Some err, w') \<Rightarrow> (Some (fmt_Errorf format (args @ [message err])), w')
      | (None, w') \<Rightarrow> (None, w'))"

definition returnNil :: action where
  "returnNil w = (None, w)"

subsection \<open>The operations\<close>

definition setInstallerAgentGroup :: "env \<Rightarrow> action" where
  "setInstallerAgentGroup e w =
     (case exec_Output e ''id'' [''-Gn'', ''dd-installer''] w of
        ((out, Some err), w') \<Rightarrow> (Some err, w')
      | ((out, None), w') \<Rightarrow>
          if strings_Contains out ''dd-agent'' then (None, w')
          else executeHelperCommand e (addInstallerToAgentGroup e) w')"

definition RemoveAgent_steps :: "env \<Rightarrow> action" where
  "RemoveAgent_steps e =
     andThen (rangeUnits (\<lambda>unit.
                wrapping ''Failed to stop %s: %s'' [unit] (stopUnit e unit)) experimentalUnits)
    (andThen (rangeUnits (\<lambda>unit.
                wrapping ''Failed to stop %s: %s'' [unit] (stopUnit e unit)) stableUnits)
    (andThen (rangeUnits (\<lambda>unit.
                andThen (wrapping ''Failed to disable %s: %s'' [unit] (disableUnit e unit))
                        (wrapping ''Failed to remove %s: %s'' [unit] (removeUnit e unit)))
                experimentalUnits)
    (andThen (rangeUnits (\<lambda>unit.
                andThen (wrapping ''Failed to disable %s: %s'' [unit] (disableUnit e unit))
                        (wrapping ''Failed to remove %s: %s'' [unit] (removeUnit e unit)))
                stableUnits)
    (andThen (wrapping ''Failed to remove agent symlink: %s'' [] (rmAgentSymlink e))
             (\<lambda>w. (None, RmInstallInfo w))))))"

text \<open>The span is started first and finished, by \<open>defer\<close>, on every return.\<close>

definition RemoveAgent :: "env \<Rightarrow> action" where
  "RemoveAgent e w =
     (case RemoveAgent_steps e (logging (SpanStart ''remove_agent_units'') w) of
        (err, w') \<Rightarrow> (err, logging (SpanFinish None) w'))"

text \<open>The forward sequence of \<open>SetupAgent\<close>: the function body, lines 66 to 105.\<close>

definition SetupAgent_forward :: "env \<Rightarrow> action" where
  "SetupAgent_forward e =
     andThen (setInstallerAgentGroup e)
    (andThen (rangeUnits (loadUnit e) stableUnits)
    (andThen (rangeUnits (loadUnit e) experimentalUnits)
    (andThen (systemdReload e)
    (andThen (rangeUnits (enableUnit e) stableUnits)
    (andThen (rangeUnits (startUnit e) stableUnits)
    (andThen (createAgentSymlink e)
    (andThen (WriteInstallInfo e ''installer_package'' ''manual_update'')
             returnNil)))))))"

text \<open>
  The deferred function, lines 55 to 64, run on the named result \<open>err\<close> of the body: it
  assigns the result of \<open>RemoveAgent\<close> to \<open>err\<close>, and \<open>err\<close> is what the caller gets.
\<close>

definition SetupAgent_deferred :: "env \<Rightarrow> error option \<Rightarrow> action" where
  "SetupAgent_deferred e err w =
     (case err of
        None \<Rightarrow> (None, logging (SpanFinish None) w)
      | Some failed \<Rightarrow>
          (case RemoveAgent e
                  (logging (Errorf (Sprintf ''Failed to setup agent: %s, reverting''
                                      [message failed])) w) of
             (None, w') \<Rightarrow> (None, logging (SpanFinish None) w')
           | (Some err', w') \<Rightarrow>
               (Some err',
                logging (SpanFinish (Some err'))
                  (logging (Warnf (Sprintf ''Failed to revert agent setup: %s''
                                     [message err'])) w'))))"

definition SetupAgent :: "env \<Rightarrow> action" where
  "SetupAgent e w =
     (case SetupAgent_forward e (logging (SpanStart ''setup_agent'') w) of
        (err, w') \<Rightarrow> SetupAgent_deferred e err w')"

definition StartAgentExperiment :: "env \<Rightarrow> action" where
  "StartAgentExperiment e = startUnit e agentExp"

definition StopAgentExperiment :: "env \<Rightarrow> action" where
  "StopAgentExperiment e = startUnit e agentUnit"

subsection \<open>Fail-fast execution of a sequence of calls\<close>

text \<open>
  The reference the operations are compared with: the calls of a list are attempted in
  order, each only if all before it succeeded; the first failure stops the run and is
  reported with the call that failed.
\<close>

fun failFast :: "env \<Rightarrow> call list \<Rightarrow> world \<Rightarrow> (call \<times> error) option \<times> world" where
  "failFast e [] w = (None, w)"
| "failFast e (c # cs) w =
     (case external e c w of
        (Some err, w') \<Rightarrow> (Some (c, err), w')
      | (None, w') \<Rightarrow> failFast e cs w')"

definition performs :: "env \<Rightarrow> (call \<Rightarrow> error \<Rightarrow> error) \<Rightarrow> call list \<Rightarrow> action \<Rightarrow> bool" where
  "performs e wr cs m \<longleftrightarrow>
     (\<forall>w. m w = (case failFast e cs w of
                   (None, w') \<Rightarrow> (None, w')
                 | (Some (c, err), w') \<Rightarrow> (Some (wr c err), w')))"

text \<open>The calls of a complete teardown, without the final removal of the install info.\<close>

definition RemoveAgent_sequence :: "call list" where
  "RemoveAgent_sequence =
     map Stop experimentalUnits @ map Stop stableUnits @
     concat (map (\<lambda>unit. [Disable unit, Remove unit]) experimentalUnits) @
     concat (map (\<lambda>unit. [Disable unit, Remove unit]) stableUnits) @
     [RmSymlink]"

text \<open>The error a teardown is expected to return when the given call fails.\<close>

fun wrapped :: "call \<Rightarrow> error \<Rightarrow> error" where
  "wrapped (Stop unit) err = Error (''Failed to stop '' @ unit @ '': '' @ message err)"
| "wrapped (Disable unit) err = Error (''Failed to disable '' @ unit @ '': '' @ message err)"
| "wrapped (Remove unit) err = Error (''Failed to remove '' @ unit @ '': '' @ message err)"
| "wrapped RmSymlink err = Error (''Failed to remove agent symlink: '' @ message err)"
| "wrapped c err = err"

text \<open>The query of the installer's groups, and the calls of the precondition check.\<close>

definition groupQuery :: call where
  "groupQuery = Exec ''id'' [''-Gn'', ''dd-installer'']"

definition groupCheck_sequence :: "env \<Rightarrow> world \<Rightarrow> call list" where
  "groupCheck_sequence e w =
     groupQuery #
     (if strings_Contains (stdout e (calls w) groupQuery) ''dd-agent'' then []
      else [Helper (addInstallerToAgentGroup e)])"

text \<open>The calls of a setup after the precondition check.\<close>

definition SetupAgent_sequence :: "call list" where
  "SetupAgent_sequence =
     map Load stableUnits @ map Load experimentalUnits @ [Reload] @
     map Enable stableUnits @ map Start stableUnits @
     [CreateSymlink, WriteInfo ''installer_package'' ''manual_update'']"

subsection \<open>Hosts to run the operations on\<close>

definition freshWorld :: world where
  "freshWorld = \<lparr>calls = [], logs = []\<rparr>"

text \<open>Every call succeeds; the installer is in the group already.\<close>

definition hostHealthy :: env where
  "hostHealthy =
     \<lparr>addInstallerToAgentGroup = ''add-installer-to-agent-group'',
      stdout = (\<lambda>tr c. ''dd-installer dd-agent''),
      failure = (\<lambda>tr c. None)\<rparr>"

text \<open>Enabling the third stable unit fails; every other call succeeds.\<close>

definition hostEnableFails :: env where
  "hostEnableFails =
     \<lparr>addInstallerToAgentGroup = ''add-installer-to-agent-group'',
      stdout = (\<lambda>tr c. ''dd-installer dd-agent''),
      failure = (\<lambda>tr c. if c = Enable processAgentUnit
                          then Some (Error ''exit status 1'') else None)\<rparr>"

text \<open>The user \<open>dd-installer\<close> does not exist: \<open>id\<close> prints nothing and fails.\<close>

definition hostNoInstaller :: env where
  "hostNoInstaller =
     \<lparr>addInstallerToAgentGroup = ''add-installer-to-agent-group'',
      stdout = (\<lambda>tr c. []),
      failure = (\<lambda>tr c. if c = groupQuery
                          then Some (Error ''exit status 1'') else None)\<rparr>"

text \<open>The installer is not in the group and the helper fails.\<close>

definition hostHelperFails :: env where
  "hostHelperFails =
     \<lparr>addInstallerToAgentGroup = ''add-installer-to-agent-group'',
      stdout = (\<lambda>tr c. ''dd-installer''),
      failure = (\<lambda>tr c. if c = Helper ''add-installer-to-agent-group''
                          then Some (Error ''helper failed'') else None)\<rparr>"

text \<open>Enabling the third stable unit fails, and so does the first call of the rollback.\<close>

definition hostEnableAndStopFail :: env where
  "hostEnableAndStopFail =
     \<lparr>addInstallerToAgentGroup = ''add-installer-to-agent-group'',
      stdout = (\<lambda>tr c. ''dd-installer dd-agent''),
      failure = (\<lambda>tr c. if c = Enable processAgentUnit then Some (Error ''exit status 1'')
                          else if c = Stop agentExp then Some (Error ''exit status 5'')
                          else None)\<rparr>"

text \<open>Disabling the experimental trace unit fails during a teardown.\<close>

definition hostDisableFails :: env where
  "hostDisableFails =
     \<lparr>addInstallerToAgentGroup = ''add-installer-to-agent-group'',
      stdout = (\<lambda>tr c. ''dd-installer dd-agent''),
      failure = (\<lambda>tr c. if c = Disable traceAgentExp
                          then Some (Error ''exit status 1'') else None)\<rparr>"

subsection \<open>Subcomponents and the naming of their units\<close>

text \<open>
  The registry names one stable and one experimental constant per subcomponent
  (\<open>agentUnit\<close> and \<open>agentExp\<close>, \<open>traceAgentUnit\<close> and \<open>traceAgentExp\<close>, and so on).
  The experimental counterpart of a stable unit name has \<open>-exp\<close> before the
  \<open>.service\<close> suffix.
\<close>

datatype subcomponent = MainAgent | TraceAgent | ProcessAgent | SystemProbe | SecurityAgent

fun stableUnit :: "subcomponent \<Rightarrow> string" where
  "stableUnit MainAgent = agentUnit"
| "stableUnit TraceAgent = traceAgentUnit"
| "stableUnit ProcessAgent = processAgentUnit"
| "stableUnit SystemProbe = systemProbeUnit"
| "stableUnit SecurityAgent = securityAgentUnit"

fun experimentalUnit :: "subcomponent \<Rightarrow> string" where
  "experimentalUnit MainAgent = agentExp"
| "experimentalUnit TraceAgent = traceAgentExp"
| "experimentalUnit ProcessAgent = processAgentExp"
| "experimentalUnit SystemProbe = systemProbeExp"
| "experimentalUnit SecurityAgent = securityAgentExp"

definition experimentalCounterpart :: "string \<Rightarrow> string" where
  "experimentalCounterpart unit =
     take (length unit - length ''.service'') unit @ ''-exp.service''"

subsection \<open>The unit a call operates on\<close>

fun unitOf :: "call \<Rightarrow> string option" where
  "unitOf (Load unit) = Some unit"
| "unitOf (Enable unit) = Some unit"
| "unitOf (Start unit) = Some unit"
| "unitOf (Stop unit) = Some unit"
| "unitOf (Disable unit) = Some unit"
| "unitOf (Remove unit) = Some unit"
| "unitOf c = None"

section \<open>Properties\<close>

subsection \<open>Fail-fast execution\<close>

lemma failFast_append:
  "failFast e (cs @ ds) w =
     (case failFast e cs w of
        (None, w') \<Rightarrow> failFast e ds w'
      | (Some x, w') \<Rightarrow> (Some x, w'))"
  by (induction cs arbitrary: w) (auto split: prod.splits option.splits)

lemma performs_external:
  "(\<And>err. wr c err = err) \<Longrightarrow> performs e wr [c] (external e c)"
  by (auto simp: performs_def split: prod.splits option.splits)

lemma performs_wrapping:
  "(\<And>err. wr c err = fmt_Errorf format (args @ [message err])) \<Longrightarrow>
   performs e wr [c] (wrapping format args (external e c))"
  by (auto simp: performs_def wrapping_def split: prod.splits option.splits)

lemma performs_returnNil: "performs e wr [] returnNil"
  by (simp add: performs_def returnNil_def)

lemma performs_andThen:
  "performs e wr cs m \<Longrightarrow> performs e wr ds k \<Longrightarrow> performs e wr (cs @ ds) (andThen m k)"
  by (auto simp: performs_def andThen_def failFast_append split: prod.splits option.splits)

lemma performs_rangeUnits:
  "(\<And>unit. performs e wr (f unit) (body unit)) \<Longrightarrow>
   performs e wr (concat (map f units)) (rangeUnits body units)"
proof (induction units)
  case Nil
  show ?case by (simp add: performs_def)
next
  case (Cons u us)
  have "performs e wr (f u @ concat (map f us)) (andThen (body u) (rangeUnits body us))"
    using Cons by (intro performs_andThen) auto
  moreover have "andThen (body u) (rangeUnits body us) = rangeUnits body (u # us)"
    by (rule ext) (simp add: andThen_def)
  ultimately show ?case by (simp del: rangeUnits.simps)
qed

lemma performs_rangeUnits1:
  "(\<And>unit. performs e wr [f unit] (body unit)) \<Longrightarrow>
   performs e wr (map f units) (rangeUnits body units)"
  using performs_rangeUnits [of e wr "\<lambda>u. [f u]" body units] by (simp add: concat_map_singleton)

lemma failFast_None:
  "failFast e cs w = (None, w') \<Longrightarrow>
   w' = w\<lparr>calls := calls w @ cs\<rparr> \<and>
   (\<forall>k<length cs. failure e (calls w @ take k cs) (cs ! k) = None)"
proof (induction cs arbitrary: w)
  case Nil
  then show ?case by simp
next
  case (Cons c cs)
  let ?w1 = "w\<lparr>calls := calls w @ [c]\<rparr>"
  from Cons.prems have ok: "failure e (calls w) c = None" and rest: "failFast e cs ?w1 = (None, w')"
    by (auto simp: external_def split: option.splits)
  from Cons.IH [OF rest] have w': "w' = ?w1\<lparr>calls := calls ?w1 @ cs\<rparr>"
    and all: "\<forall>k<length cs. failure e (calls ?w1 @ take k cs) (cs ! k) = None" by auto
  have "failure e (calls w @ take k (c # cs)) ((c # cs) ! k) = None" if "k < length (c # cs)" for k
  proof (cases k)
    case 0
    then show ?thesis using ok by simp
  next
    case (Suc j)
    then show ?thesis using all that by simp
  qed
  then show ?case using w' by simp
qed

lemma failFast_Some:
  "failFast e cs w = (Some (c, err), w') \<Longrightarrow>
   \<exists>n<length cs. c = cs ! n \<and> w' = w\<lparr>calls := calls w @ take (Suc n) cs\<rparr> \<and>
     failure e (calls w @ take n cs) (cs ! n) = Some err \<and>
     (\<forall>k<n. failure e (calls w @ take k cs) (cs ! k) = None)"
proof (induction cs arbitrary: w)
  case Nil
  then show ?case by simp
next
  case (Cons d ds)
  let ?w1 = "w\<lparr>calls := calls w @ [d]\<rparr>"
  show ?case
  proof (cases "failure e (calls w) d")
    case (Some x)
    with Cons.prems have "c = d" "x = err" "w' = ?w1"
      by (auto simp: external_def)
    with Some show ?thesis by (intro exI [of _ 0]) simp
  next
    case None
    with Cons.prems have rest: "failFast e ds ?w1 = (Some (c, err), w')"
      by (auto simp: external_def)
    from Cons.IH [OF rest] obtain n where n: "n < length ds" "c = ds ! n"
      "w' = ?w1\<lparr>calls := calls ?w1 @ take (Suc n) ds\<rparr>"
      "failure e (calls ?w1 @ take n ds) (ds ! n) = Some err"
      "\<forall>k<n. failure e (calls ?w1 @ take k ds) (ds ! k) = None" by auto
    have "failure e (calls w @ take k (d # ds)) ((d # ds) ! k) = None" if "k < Suc n" for k
    proof (cases k)
      case 0
      then show ?thesis using None by simp
    next
      case (Suc j)
      then show ?thesis using n(5) that by simp
    qed
    with n show ?thesis by (intro exI [of _ "Suc n"]) simp
  qed
qed

subsection \<open>The teardown as a fail-fast run\<close>

lemma Sprintf_stop:
  "Sprintf ''Failed to stop %s: %s'' [u, m] = ''Failed to stop '' @ u @ '': '' @ m"
  by simp

lemma Sprintf_disable:
  "Sprintf ''Failed to disable %s: %s'' [u, m] = ''Failed to disable '' @ u @ '': '' @ m"
  by simp

lemma Sprintf_remove:
  "Sprintf ''Failed to remove %s: %s'' [u, m] = ''Failed to remove '' @ u @ '': '' @ m"
  by simp

lemma Sprintf_symlink:
  "Sprintf ''Failed to remove agent symlink: %s'' [m] = ''Failed to remove agent symlink: '' @ m"
  by simp

lemma andThen_assoc: "andThen (andThen a b) k = andThen a (andThen b k)"
  by (rule ext) (simp add: andThen_def split: prod.splits option.splits)

lemma performs_then:
  "performs e wr cs m \<Longrightarrow>
   andThen m k w =
     (case failFast e cs w of
        (None, w') \<Rightarrow> k w'
      | (Some (c, err), w') \<Rightarrow> (Some (wr c err), w'))"
  by (simp add: performs_def andThen_def split: prod.splits option.splits)

lemma performs_stops:
  "performs e wrapped (map Stop units)
     (rangeUnits (\<lambda>unit. wrapping ''Failed to stop %s: %s'' [unit] (stopUnit e unit)) units)"
  unfolding stopUnit_def
  by (rule performs_rangeUnits1, rule performs_wrapping) (simp add: fmt_Errorf_def)

lemma performs_purge:
  "performs e wrapped (concat (map (\<lambda>unit. [Disable unit, Remove unit]) units))
     (rangeUnits (\<lambda>unit.
        andThen (wrapping ''Failed to disable %s: %s'' [unit] (disableUnit e unit))
                (wrapping ''Failed to remove %s: %s'' [unit] (removeUnit e unit))) units)"
proof (rule performs_rangeUnits)
  fix unit
  have "performs e wrapped ([Disable unit] @ [Remove unit])
          (andThen (wrapping ''Failed to disable %s: %s'' [unit] (disableUnit e unit))
                   (wrapping ''Failed to remove %s: %s'' [unit] (removeUnit e unit)))"
    unfolding disableUnit_def removeUnit_def
    by (intro performs_andThen performs_wrapping) (simp_all add: fmt_Errorf_def)
  then show "performs e wrapped [Disable unit, Remove unit]
          (andThen (wrapping ''Failed to disable %s: %s'' [unit] (disableUnit e unit))
                   (wrapping ''Failed to remove %s: %s'' [unit] (removeUnit e unit)))"
    by simp
qed

lemma performs_symlink:
  "performs e wrapped [RmSymlink]
     (wrapping ''Failed to remove agent symlink: %s'' [] (rmAgentSymlink e))"
  unfolding rmAgentSymlink_def
  by (rule performs_wrapping) (simp add: fmt_Errorf_def)

lemma RemoveAgent_steps_failFast:
  "RemoveAgent_steps e w =
     (case failFast e RemoveAgent_sequence w of
        (None, w') \<Rightarrow> (None, RmInstallInfo w')
      | (Some (c, err), w') \<Rightarrow> (Some (wrapped c err), w'))"
proof -
  let ?stop = "\<lambda>unit. wrapping ''Failed to stop %s: %s'' [unit] (stopUnit e unit)"
  let ?purge = "\<lambda>unit.
        andThen (wrapping ''Failed to disable %s: %s'' [unit] (disableUnit e unit))
                (wrapping ''Failed to remove %s: %s'' [unit] (removeUnit e unit))"
  let ?fallible =
    "andThen (rangeUnits ?stop experimentalUnits)
    (andThen (rangeUnits ?stop stableUnits)
    (andThen (rangeUnits ?purge experimentalUnits)
    (andThen (rangeUnits ?purge stableUnits)
             (wrapping ''Failed to remove agent symlink: %s'' [] (rmAgentSymlink e)))))"
  have "performs e wrapped RemoveAgent_sequence ?fallible"
    unfolding RemoveAgent_sequence_def
    by (intro performs_andThen performs_stops performs_purge performs_symlink)
  moreover have "RemoveAgent_steps e = andThen ?fallible (\<lambda>w. (None, RmInstallInfo w))"
    unfolding RemoveAgent_steps_def by (simp only: andThen_assoc)
  ultimately show ?thesis by (simp add: performs_then)
qed

lemma failFast_logs: "logs (snd (failFast e cs w)) = logs w"
  by (induction cs arbitrary: w) (auto simp: external_def split: option.splits)

lemma world_update_commute:
  "w\<lparr>logs := l, calls := c\<rparr> = w\<lparr>calls := c, logs := l\<rparr>"
  by simp

lemma failFast_frame:
  "failFast e cs (w\<lparr>logs := l\<rparr>) =
     (case failFast e cs w of (r, w') \<Rightarrow> (r, w'\<lparr>logs := l\<rparr>))"
proof (induction cs arbitrary: w)
  case Nil
  show ?case by simp
next
  case (Cons c cs)
  show ?case
    using Cons.IH [of "w\<lparr>calls := calls w @ [c]\<rparr>"]
    by (simp add: external_def world_update_commute split: option.splits)
qed

lemma RemoveAgent_failFast:
  "RemoveAgent e w =
     (case failFast e RemoveAgent_sequence w of
        (None, w') \<Rightarrow>
          (None, w'\<lparr>calls := calls w' @ [RmInfo],
                    logs := logs w @ [SpanStart ''remove_agent_units'', SpanFinish None]\<rparr>)
      | (Some (c, err), w') \<Rightarrow>
          (Some (wrapped c err),
           w'\<lparr>logs := logs w @ [SpanStart ''remove_agent_units'', SpanFinish None]\<rparr>))"
proof -
  obtain r w' where run: "failFast e RemoveAgent_sequence w = (r, w')"
    by (cases "failFast e RemoveAgent_sequence w")
  have "failFast e RemoveAgent_sequence (logging (SpanStart ''remove_agent_units'') w) =
          (r, w'\<lparr>logs := logs w @ [SpanStart ''remove_agent_units'']\<rparr>)"
    unfolding logging_def by (simp add: failFast_frame run)
  then show ?thesis
    by (simp add: RemoveAgent_def RemoveAgent_steps_failFast RmInstallInfo_def logging_def run
             split: option.splits prod.splits)
qed

subsection \<open>The setup as a fail-fast run\<close>

lemma performs_forward_tail:
  "performs e (\<lambda>c err. err) SetupAgent_sequence
     (andThen (rangeUnits (loadUnit e) stableUnits)
     (andThen (rangeUnits (loadUnit e) experimentalUnits)
     (andThen (systemdReload e)
     (andThen (rangeUnits (enableUnit e) stableUnits)
     (andThen (rangeUnits (startUnit e) stableUnits)
     (andThen (createAgentSymlink e)
              (WriteInstallInfo e ''installer_package'' ''manual_update'')))))))"
proof -
  have unit_op: "performs e (\<lambda>c err. err) (map f units) (rangeUnits (\<lambda>unit. external e (f unit)) units)"
    for f units
    by (rule performs_rangeUnits1, rule performs_external) simp
  have eta: "loadUnit e = (\<lambda>unit. external e (Load unit))"
    "enableUnit e = (\<lambda>unit. external e (Enable unit))"
    "startUnit e = (\<lambda>unit. external e (Start unit))"
    by (simp_all add: fun_eq_iff loadUnit_def enableUnit_def startUnit_def)
  have "performs e (\<lambda>c err. err)
          (map Load stableUnits @ map Load experimentalUnits @ [Reload] @
           map Enable stableUnits @ map Start stableUnits @
           [CreateSymlink] @ [WriteInfo ''installer_package'' ''manual_update''])
     (andThen (rangeUnits (loadUnit e) stableUnits)
     (andThen (rangeUnits (loadUnit e) experimentalUnits)
     (andThen (systemdReload e)
     (andThen (rangeUnits (enableUnit e) stableUnits)
     (andThen (rangeUnits (startUnit e) stableUnits)
     (andThen (createAgentSymlink e)
              (WriteInstallInfo e ''installer_package'' ''manual_update'')))))))"
    unfolding eta systemdReload_def createAgentSymlink_def WriteInstallInfo_def
    by (intro performs_andThen unit_op performs_external) simp_all
  then show ?thesis by (simp add: SetupAgent_sequence_def)
qed

lemma andThen_returnNil: "andThen m returnNil = m"
  by (rule ext) (simp add: andThen_def returnNil_def split: prod.splits option.splits)

lemma setInstallerAgentGroup_failFast:
  "setInstallerAgentGroup e w =
     (case failFast e (groupCheck_sequence e w) w of (r, w') \<Rightarrow> (map_option snd r, w'))"
  by (simp add: setInstallerAgentGroup_def groupCheck_sequence_def exec_Output_def
        executeHelperCommand_def external_def groupQuery_def split: option.splits)

lemma SetupAgent_forward_failFast:
  "SetupAgent_forward e w =
     (case failFast e (groupCheck_sequence e w @ SetupAgent_sequence) w of
        (r, w') \<Rightarrow> (map_option snd r, w'))"
proof -
  let ?tail = "andThen (rangeUnits (loadUnit e) stableUnits)
     (andThen (rangeUnits (loadUnit e) experimentalUnits)
     (andThen (systemdReload e)
     (andThen (rangeUnits (enableUnit e) stableUnits)
     (andThen (rangeUnits (startUnit e) stableUnits)
     (andThen (createAgentSymlink e)
              (WriteInstallInfo e ''installer_package'' ''manual_update''))))))"
  have "SetupAgent_forward e = andThen (setInstallerAgentGroup e) ?tail"
    by (simp add: SetupAgent_forward_def andThen_returnNil)
  moreover have "?tail w' =
     (case failFast e SetupAgent_sequence w' of (r, w'') \<Rightarrow> (map_option snd r, w''))" for w'
    using performs_forward_tail [of e]
    by (simp add: performs_def split: prod.splits option.splits)
  ultimately show ?thesis
    by (simp add: andThen_def setInstallerAgentGroup_failFast failFast_append
          split: prod.splits option.splits)
qed

lemma failFast_calls:
  "\<exists>n\<le>length cs. calls (snd (failFast e cs w)) = calls w @ take n cs \<and>
     (fst (failFast e cs w) = None \<longrightarrow> n = length cs) \<and> (cs \<noteq> [] \<longrightarrow> 0 < n)"
proof (cases "failFast e cs w")
  case (Pair r w')
  show ?thesis
  proof (cases r)
    case None
    with Pair failFast_None [of e cs w w'] show ?thesis
      by (intro exI [of _ "length cs"]) auto
  next
    case (Some x)
    obtain c err where "x = (c, err)" by (cases x)
    with Some Pair failFast_Some [of e cs w c err w'] obtain n where
      "n < length cs" "w' = w\<lparr>calls := calls w @ take (Suc n) cs\<rparr>" by auto
    with Pair Some show ?thesis
      by (intro exI [of _ "Suc n"]) auto
  qed
qed

lemma failFast_all_succeed:
  "(\<And>tr c. failure e tr c = None) \<Longrightarrow> failFast e cs w = (None, w\<lparr>calls := calls w @ cs\<rparr>)"
  by (induction cs arbitrary: w) (simp_all add: external_def)

subsection \<open>Evaluation helpers\<close>

lemmas unit_names =
  agentUnit_def traceAgentUnit_def processAgentUnit_def systemProbeUnit_def
  securityAgentUnit_def agentExp_def traceAgentExp_def processAgentExp_def
  systemProbeExp_def securityAgentExp_def

lemma not_Contains_empty: "\<not> strings_Contains [] ''dd-agent''"
  by (simp add: strings_Contains_def)

lemma SetupAgent_result:
  "SetupAgent_forward e (logging (SpanStart ''setup_agent'') w) = (Some err, w1) \<Longrightarrow>
   fst (SetupAgent e w) =
     fst (RemoveAgent e
            (logging (Errorf (Sprintf ''Failed to setup agent: %s, reverting'' [message err])) w1))"
  by (simp add: SetupAgent_def SetupAgent_deferred_def split: prod.splits option.splits)

subsection \<open>The calls made by the two orchestrators\<close>

lemma take_append_split:
  assumes "take n (as @ bs) = pre @ c # post" and "c \<notin> set as"
  shows "set as \<subseteq> set pre \<and> set post \<subseteq> set bs"
proof (cases "n \<le> length as")
  case True
  then have "take n as = pre @ c # post" using assms(1) by simp
  then have "c \<in> set (take n as)" by simp
  then have "c \<in> set as" by (rule in_set_takeD)
  with assms(2) show ?thesis by simp
next
  case False
  then have "as @ take (n - length as) bs = pre @ c # post"
    using assms(1) by simp
  then obtain us where
    "(as = pre @ us \<and> us @ take (n - length as) bs = c # post) \<or>
     (as @ us = pre \<and> take (n - length as) bs = us @ c # post)"
    by (auto simp: append_eq_append_conv2)
  then show ?thesis
  proof
    assume a: "as = pre @ us \<and> us @ take (n - length as) bs = c # post"
    show ?thesis
    proof (cases us)
      case Nil
      with a have "as = pre" "take (n - length as) bs = c # post" by auto
      then have "set as \<subseteq> set pre" "set post \<subseteq> set (take (n - length as) bs)"
        by (simp_all add: subset_iff)
      then show ?thesis using set_take_subset [of "n - length as" bs] by blast
    next
      case (Cons d ds)
      with a have "c \<in> set as" by simp
      with assms(2) show ?thesis by simp
    qed
  next
    assume b: "as @ us = pre \<and> take (n - length as) bs = us @ c # post"
    then have "set as \<subseteq> set pre" "set post \<subseteq> set (take (n - length as) bs)"
      by auto
    then show ?thesis using set_take_subset [of "n - length as" bs] by blast
  qed
qed

lemma RemoveAgent_calls:
  "\<exists>n. 0 < n \<and>
     calls (snd (RemoveAgent e w)) = calls w @ take n (RemoveAgent_sequence @ [RmInfo])"
proof (cases "failFast e RemoveAgent_sequence w")
  case (Pair r w')
  show ?thesis
  proof (cases r)
    case None
    with Pair have "w' = w\<lparr>calls := calls w @ RemoveAgent_sequence\<rparr>"
      using failFast_None [of e RemoveAgent_sequence w w'] by simp
    with Pair None have "calls (snd (RemoveAgent e w)) = calls w @ RemoveAgent_sequence @ [RmInfo]"
      by (simp add: RemoveAgent_failFast)
    then show ?thesis
      by (intro exI [of _ "Suc (length RemoveAgent_sequence)"]) simp
  next
    case (Some x)
    obtain c err where x: "x = (c, err)" by (cases x)
    from Pair Some x obtain n where n: "n < length RemoveAgent_sequence"
      "w' = w\<lparr>calls := calls w @ take (Suc n) RemoveAgent_sequence\<rparr>"
      using failFast_Some [of e RemoveAgent_sequence w c err w'] by auto
    from Pair Some x n(2)
    have "calls (snd (RemoveAgent e w)) = calls w @ take (Suc n) RemoveAgent_sequence"
      by (simp add: RemoveAgent_failFast)
    moreover from n(1) have "take (Suc n) (RemoveAgent_sequence @ [RmInfo]) =
        take (Suc n) RemoveAgent_sequence"
      by simp
    ultimately show ?thesis
      by (intro exI [of _ "Suc n"]) simp
  qed
qed

lemma stable_not_experimental:
  "s \<in> set stableUnits \<Longrightarrow> s \<notin> set experimentalUnits"
  by (auto simp: stableUnits_def experimentalUnits_def unit_names)

lemma RemoveAgent_sequence_split:
  "RemoveAgent_sequence @ [RmInfo] =
     map Stop experimentalUnits @
     (map Stop stableUnits @
      concat (map (\<lambda>unit. [Disable unit, Remove unit]) experimentalUnits) @
      concat (map (\<lambda>unit. [Disable unit, Remove unit]) stableUnits) @
      [RmSymlink, RmInfo])"
  by (simp add: RemoveAgent_sequence_def)

lemma no_experimental_stop_later:
  assumes "x \<in> set experimentalUnits"
  shows "Stop x \<notin> set (map Stop stableUnits @
      concat (map (\<lambda>unit. [Disable unit, Remove unit]) experimentalUnits) @
      concat (map (\<lambda>unit. [Disable unit, Remove unit]) stableUnits) @
      [RmSymlink, RmInfo])"
proof -
  from assms have "x \<notin> set stableUnits" using stable_not_experimental by blast
  then show ?thesis by auto
qed

lemma SetupAgent_forward_calls:
  "\<exists>n. calls (snd (SetupAgent_forward e w)) =
     calls w @ take n (groupCheck_sequence e w @ SetupAgent_sequence)"
proof -
  obtain n where "calls (snd (failFast e (groupCheck_sequence e w @ SetupAgent_sequence) w)) =
      calls w @ take n (groupCheck_sequence e w @ SetupAgent_sequence)"
    using failFast_calls [of "groupCheck_sequence e w @ SetupAgent_sequence" e w] by blast
  then show ?thesis
    by (auto simp: SetupAgent_forward_failFast split: prod.splits)
qed

lemma forward_sequence_experimental:
  assumes "c \<in> set (groupCheck_sequence e w @ SetupAgent_sequence)"
    and "unitOf c = Some u" and "u \<in> set experimentalUnits"
  shows "c = Load u"
proof -
  from assms(3) have "u \<notin> set stableUnits" using stable_not_experimental by blast
  with assms(1,2) show ?thesis
    by (auto simp: groupCheck_sequence_def groupQuery_def SetupAgent_sequence_def
          split: if_splits)
qed

subsection \<open>Running the operations on the hosts\<close>

lemma Contains_present: "strings_Contains ''dd-installer dd-agent'' ''dd-agent''"
  by (simp add: strings_Contains_def sublist_Cons_right)

lemma Contains_absent: "\<not> strings_Contains ''dd-installer'' ''dd-agent''"
  by (simp add: strings_Contains_def sublist_Cons_right)

lemmas run_simps =
  SetupAgent_def SetupAgent_deferred_def SetupAgent_forward_failFast RemoveAgent_failFast
  groupCheck_sequence_def SetupAgent_sequence_def RemoveAgent_sequence_def groupQuery_def
  external_def logging_def freshWorld_def stableUnits_def experimentalUnits_def unit_names
  Contains_present Contains_absent not_Contains_empty

lemma rollback_no_forward_unit_operation:
  "c \<in> set (RemoveAgent_sequence @ [RmInfo]) \<Longrightarrow> c \<noteq> Load u \<and> c \<noteq> Enable u \<and> c \<noteq> Start u"
  by (auto simp: RemoveAgent_sequence_def)

lemma RemoveAgent_calls_fail_fast:
  "(calls (snd (RemoveAgent e w)) = calls w @ RemoveAgent_sequence @ [RmInfo] \<and>
    (\<forall>k<length RemoveAgent_sequence.
       failure e (calls w @ take k RemoveAgent_sequence) (RemoveAgent_sequence ! k) = None)) \<or>
   (\<exists>n<length RemoveAgent_sequence.
      (\<forall>k<n. failure e (calls w @ take k RemoveAgent_sequence) (RemoveAgent_sequence ! k) = None) \<and>
      failure e (calls w @ take n RemoveAgent_sequence) (RemoveAgent_sequence ! n) \<noteq> None \<and>
      calls (snd (RemoveAgent e w)) = calls w @ take (Suc n) RemoveAgent_sequence)"
proof (cases "failFast e RemoveAgent_sequence w")
  case (Pair r w')
  show ?thesis
  proof (cases r)
    case None
    with Pair have "w' = w\<lparr>calls := calls w @ RemoveAgent_sequence\<rparr>"
      and ok: "\<forall>k<length RemoveAgent_sequence.
        failure e (calls w @ take k RemoveAgent_sequence) (RemoveAgent_sequence ! k) = None"
      using failFast_None [of e RemoveAgent_sequence w w'] by simp_all
    with Pair None
    have "calls (snd (RemoveAgent e w)) = calls w @ RemoveAgent_sequence @ [RmInfo]"
      by (simp add: RemoveAgent_failFast)
    with ok show ?thesis by blast
  next
    case (Some x)
    obtain c err where x: "x = (c, err)" by (cases x)
    from Pair Some x obtain n where n: "n < length RemoveAgent_sequence"
      "w' = w\<lparr>calls := calls w @ take (Suc n) RemoveAgent_sequence\<rparr>"
      "failure e (calls w @ take n RemoveAgent_sequence) (RemoveAgent_sequence ! n) = Some err"
      "\<forall>k<n. failure e (calls w @ take k RemoveAgent_sequence) (RemoveAgent_sequence ! k) = None"
      using failFast_Some [of e RemoveAgent_sequence w c err w'] by auto
    from Pair Some x n(2)
    have "calls (snd (RemoveAgent e w)) = calls w @ take (Suc n) RemoveAgent_sequence"
      by (simp add: RemoveAgent_failFast)
    moreover from n(3)
    have "failure e (calls w @ take n RemoveAgent_sequence) (RemoveAgent_sequence ! n) \<noteq> None"
      by simp
    ultimately show ?thesis using n(1,4) by blast
  qed
qed

lemma RemoveAgent_sequence_first: "RemoveAgent_sequence ! 0 = Stop agentExp"
  by (simp add: RemoveAgent_sequence_def experimentalUnits_def)

section \<open>The claims\<close>

text \<open>
  C1 says that the error \<open>SetupAgent\<close> returns is the failure of the step that
  failed, whatever the rollback does. The deferred function assigns the result of
  \<open>RemoveAgent\<close> to the named result instead. On a host where enabling the third stable
  unit fails and the rollback succeeds, the forward sequence fails with that error and
  \<open>SetupAgent\<close> returns nil; on a host where the rollback fails too, \<open>SetupAgent\<close>
  returns the error of the rollback.
\<close>

theorem SetupAgent_masks_setup_failure:
  "fst (SetupAgent_forward hostEnableFails (logging (SpanStart ''setup_agent'') freshWorld)) =
     Some (Error ''exit status 1'') \<and>
   fst (SetupAgent hostEnableFails freshWorld) = None \<and>
   fst (SetupAgent_forward hostEnableAndStopFail
          (logging (SpanStart ''setup_agent'') freshWorld)) = Some (Error ''exit status 1'') \<and>
   fst (SetupAgent hostEnableAndStopFail freshWorld) =
     Some (Error ''Failed to stop datadog-agent-exp.service: exit status 5'')"
  by (simp add: run_simps hostEnableFails_def hostEnableAndStopFail_def)

text \<open>
  C2. If the forward sequence of \<open>SetupAgent\<close> fails and the rollback call to
  \<open>RemoveAgent\<close> that follows returns nil, then \<open>SetupAgent\<close> returns nil.
\<close>

theorem SetupAgent_nil_after_rollback:
  assumes "SetupAgent_forward e (logging (SpanStart ''setup_agent'') w) = (Some err, w1)"
    and "fst (RemoveAgent e
                (logging (Errorf (Sprintf ''Failed to setup agent: %s, reverting''
                                    [message err])) w1)) = None"
  shows "fst (SetupAgent e w) = None"
  using assms by (simp add: SetupAgent_result)

text \<open>
  C2 on a host without the installer user: the group query fails, the rollback succeeds.
\<close>

theorem SetupAgent_nil_after_rollback_witness:
  "SetupAgent_forward hostNoInstaller (logging (SpanStart ''setup_agent'') freshWorld) =
     (Some (Error ''exit status 1''),
      \<lparr>calls = [Exec ''id'' [''-Gn'', ''dd-installer'']], logs = [SpanStart ''setup_agent'']\<rparr>) \<and>
   fst (RemoveAgent hostNoInstaller
          (logging (Errorf (Sprintf ''Failed to setup agent: %s, reverting''
                              [message (Error ''exit status 1'')]))
             \<lparr>calls = [Exec ''id'' [''-Gn'', ''dd-installer'']],
              logs = [SpanStart ''setup_agent'']\<rparr>)) = None \<and>
   fst (SetupAgent hostNoInstaller freshWorld) = None"
proof -
  have forward: "SetupAgent_forward hostNoInstaller
      (logging (SpanStart ''setup_agent'') freshWorld) =
     (Some (Error ''exit status 1''),
      \<lparr>calls = [Exec ''id'' [''-Gn'', ''dd-installer'']], logs = [SpanStart ''setup_agent'']\<rparr>)"
    by (simp add: run_simps hostNoInstaller_def)
  have rollback: "fst (RemoveAgent hostNoInstaller
          (logging (Errorf (Sprintf ''Failed to setup agent: %s, reverting''
                              [message (Error ''exit status 1'')]))
             \<lparr>calls = [Exec ''id'' [''-Gn'', ''dd-installer'']],
              logs = [SpanStart ''setup_agent'']\<rparr>)) = None"
    by (simp add: run_simps hostNoInstaller_def)
  from forward rollback SetupAgent_nil_after_rollback [OF forward rollback]
  show ?thesis by simp
qed

text \<open>
  C3. When every external call succeeds, \<open>SetupAgent\<close> makes exactly these calls, in
  this order: the precondition check (the group query, and the helper when the output
  lacks the group), \<open>loadUnit\<close> for every stable unit, \<open>loadUnit\<close> for every
  experimental unit, one \<open>systemdReload\<close>, \<open>enableUnit\<close> for every stable unit,
  \<open>startUnit\<close> for every stable unit, \<open>createAgentSymlink\<close>, and
  \<open>WriteInstallInfo\<close> with the two fixed tags; it returns nil.
\<close>

theorem SetupAgent_success_sequence:
  assumes "\<And>tr c. failure e tr c = None"
  shows "SetupAgent e w =
     (None,
      w\<lparr>calls := calls w @
           [Exec ''id'' [''-Gn'', ''dd-installer'']] @
           (if strings_Contains (stdout e (calls w) (Exec ''id'' [''-Gn'', ''dd-installer'']))
                 ''dd-agent''
            then [] else [Helper (addInstallerToAgentGroup e)]) @
           map Load stableUnits @ map Load experimentalUnits @ [Reload] @
           map Enable stableUnits @ map Start stableUnits @
           [CreateSymlink, WriteInfo ''installer_package'' ''manual_update''],
         logs := logs w @ [SpanStart ''setup_agent'', SpanFinish None]\<rparr>)"
proof -
  let ?w = "logging (SpanStart ''setup_agent'') w"
  have "SetupAgent_forward e ?w =
          (None, ?w\<lparr>calls := calls ?w @ groupCheck_sequence e ?w @ SetupAgent_sequence\<rparr>)"
    by (simp add: SetupAgent_forward_failFast failFast_all_succeed assms)
  then show ?thesis
    by (simp add: SetupAgent_def SetupAgent_deferred_def logging_def groupCheck_sequence_def
          SetupAgent_sequence_def groupQuery_def)
qed

text \<open>
  C3 on the healthy host, where the installer is in the group already.
\<close>

theorem SetupAgent_success_sequence_witness:
  "(\<forall>tr c. failure hostHealthy tr c = None) \<and>
   SetupAgent hostHealthy freshWorld =
     (None,
      \<lparr>calls =
         [Exec ''id'' [''-Gn'', ''dd-installer''],
          Load ''datadog-agent.service'', Load ''datadog-agent-trace.service'',
          Load ''datadog-agent-process.service'', Load ''datadog-agent-sysprobe.service'',
          Load ''datadog-agent-security.service'',
          Load ''datadog-agent-exp.service'', Load ''datadog-agent-trace-exp.service'',
          Load ''datadog-agent-process-exp.service'', Load ''datadog-agent-sysprobe-exp.service'',
          Load ''datadog-agent-security-exp.service'',
          Reload,
          Enable ''datadog-agent.service'', Enable ''datadog-agent-trace.service'',
          Enable ''datadog-agent-process.service'', Enable ''datadog-agent-sysprobe.service'',
          Enable ''datadog-agent-security.service'',
          Start ''datadog-agent.service'', Start ''datadog-agent-trace.service'',
          Start ''datadog-agent-process.service'', Start ''datadog-agent-sysprobe.service'',
          Start ''datadog-agent-security.service'',
          CreateSymlink, WriteInfo ''installer_package'' ''manual_update''],
       logs = [SpanStart ''setup_agent'', SpanFinish None]\<rparr>)"
proof -
  have ok: "\<And>tr c. failure hostHealthy tr c = None" by (simp add: hostHealthy_def)
  show ?thesis
    using ok SetupAgent_success_sequence [OF ok, of freshWorld]
    by (simp add: hostHealthy_def freshWorld_def stableUnits_def experimentalUnits_def
          unit_names Contains_present)
qed

text \<open>
  C4, as stated, fails: when the output of the group query lacks the group and the helper
  fails, the deferred rollback still runs, and it calls \<open>stopUnit\<close>,
  \<open>disableUnit\<close> and \<open>removeUnit\<close> on every unit before \<open>SetupAgent\<close> returns.
\<close>

theorem SetupAgent_helper_fails_counterexample:
  "failure hostHelperFails (calls freshWorld) groupQuery = None \<and>
   \<not> strings_Contains (stdout hostHelperFails (calls freshWorld) groupQuery) ''dd-agent'' \<and>
   failure hostHelperFails (calls freshWorld @ [groupQuery])
     (Helper (addInstallerToAgentGroup hostHelperFails)) = Some (Error ''helper failed'') \<and>
   calls (snd (SetupAgent hostHelperFails freshWorld)) =
     [Exec ''id'' [''-Gn'', ''dd-installer''], Helper ''add-installer-to-agent-group'',
      Stop ''datadog-agent-exp.service'', Stop ''datadog-agent-trace-exp.service'',
      Stop ''datadog-agent-process-exp.service'', Stop ''datadog-agent-sysprobe-exp.service'',
      Stop ''datadog-agent-security-exp.service'',
      Stop ''datadog-agent.service'', Stop ''datadog-agent-trace.service'',
      Stop ''datadog-agent-process.service'', Stop ''datadog-agent-sysprobe.service'',
      Stop ''datadog-agent-security.service'',
      Disable ''datadog-agent-exp.service'', Remove ''datadog-agent-exp.service'',
      Disable ''datadog-agent-trace-exp.service'', Remove ''datadog-agent-trace-exp.service'',
      Disable ''datadog-agent-process-exp.service'', Remove ''datadog-agent-process-exp.service'',
      Disable ''datadog-agent-sysprobe-exp.service'', Remove ''datadog-agent-sysprobe-exp.service'',
      Disable ''datadog-agent-security-exp.service'', Remove ''datadog-agent-security-exp.service'',
      Disable ''datadog-agent.service'', Remove ''datadog-agent.service'',
      Disable ''datadog-agent-trace.service'', Remove ''datadog-agent-trace.service'',
      Disable ''datadog-agent-process.service'', Remove ''datadog-agent-process.service'',
      Disable ''datadog-agent-sysprobe.service'', Remove ''datadog-agent-sysprobe.service'',
      Disable ''datadog-agent-security.service'', Remove ''datadog-agent-security.service'',
      RmSymlink, RmInfo]"
  by (simp add: run_simps hostHelperFails_def)

text \<open>
  C4, amended. If the group query succeeds, its output lacks the target group and the
  helper command then fails, the forward sequence of \<open>SetupAgent\<close> stops there, having
  made the query and the helper call only. The rollback then runs its teardown sequence
  fail-fast, right after those two calls: either every call of the sequence succeeds and
  the whole sequence is made, the removal of the install info last, or the calls made are
  the sequence up to and including its first failing call. The first call of the sequence
  is \<open>stopUnit\<close> on the experimental main-agent unit, and the sequence holds no
  \<open>loadUnit\<close>, \<open>enableUnit\<close> or \<open>startUnit\<close> call, so none is made on any
  unit before \<open>SetupAgent\<close> returns.
\<close>

theorem SetupAgent_helper_failure:
  assumes "failure e (calls w) groupQuery = None"
    and "\<not> strings_Contains (stdout e (calls w) groupQuery) ''dd-agent''"
    and "failure e (calls w @ [groupQuery]) (Helper (addInstallerToAgentGroup e)) = Some err"
  shows "SetupAgent_forward e (logging (SpanStart ''setup_agent'') w) =
           (Some err,
            w\<lparr>calls := calls w @ [groupQuery, Helper (addInstallerToAgentGroup e)],
              logs := logs w @ [SpanStart ''setup_agent'']\<rparr>) \<and>
         ((calls (snd (SetupAgent e w)) =
             (calls w @ [groupQuery, Helper (addInstallerToAgentGroup e)]) @
             RemoveAgent_sequence @ [RmInfo] \<and>
           (\<forall>k<length RemoveAgent_sequence.
              failure e ((calls w @ [groupQuery, Helper (addInstallerToAgentGroup e)]) @
                         take k RemoveAgent_sequence) (RemoveAgent_sequence ! k) = None)) \<or>
          (\<exists>n<length RemoveAgent_sequence.
             (\<forall>k<n. failure e ((calls w @ [groupQuery, Helper (addInstallerToAgentGroup e)]) @
                         take k RemoveAgent_sequence) (RemoveAgent_sequence ! k) = None) \<and>
             failure e ((calls w @ [groupQuery, Helper (addInstallerToAgentGroup e)]) @
                        take n RemoveAgent_sequence) (RemoveAgent_sequence ! n) \<noteq> None \<and>
             calls (snd (SetupAgent e w)) =
               (calls w @ [groupQuery, Helper (addInstallerToAgentGroup e)]) @
               take (Suc n) RemoveAgent_sequence)) \<and>
         RemoveAgent_sequence ! 0 = Stop agentExp \<and>
         (\<forall>c \<in> set (RemoveAgent_sequence @ [RmInfo]).
            \<forall>u. c \<noteq> Load u \<and> c \<noteq> Enable u \<and> c \<noteq> Start u)"
proof -
  let ?w = "logging (SpanStart ''setup_agent'') w"
  let ?w1 = "w\<lparr>calls := calls w @ [groupQuery, Helper (addInstallerToAgentGroup e)],
              logs := logs w @ [SpanStart ''setup_agent'']\<rparr>"
  let ?w2 = "logging (Errorf (Sprintf ''Failed to setup agent: %s, reverting'' [message err])) ?w1"
  have forward: "SetupAgent_forward e ?w = (Some err, ?w1)"
    using assms
    by (simp add: SetupAgent_forward_failFast groupCheck_sequence_def external_def logging_def)
  have same: "calls (snd (SetupAgent e w)) = calls (snd (RemoveAgent e ?w2))"
    using forward
    by (simp add: SetupAgent_def SetupAgent_deferred_def logging_def
          split: prod.splits option.splits)
  have base: "calls ?w2 = calls w @ [groupQuery, Helper (addInstallerToAgentGroup e)]"
    by (simp add: logging_def)
  have rollback:
    "(calls (snd (SetupAgent e w)) =
        (calls w @ [groupQuery, Helper (addInstallerToAgentGroup e)]) @
        RemoveAgent_sequence @ [RmInfo] \<and>
      (\<forall>k<length RemoveAgent_sequence.
         failure e ((calls w @ [groupQuery, Helper (addInstallerToAgentGroup e)]) @
                    take k RemoveAgent_sequence) (RemoveAgent_sequence ! k) = None)) \<or>
     (\<exists>n<length RemoveAgent_sequence.
        (\<forall>k<n. failure e ((calls w @ [groupQuery, Helper (addInstallerToAgentGroup e)]) @
                    take k RemoveAgent_sequence) (RemoveAgent_sequence ! k) = None) \<and>
        failure e ((calls w @ [groupQuery, Helper (addInstallerToAgentGroup e)]) @
                   take n RemoveAgent_sequence) (RemoveAgent_sequence ! n) \<noteq> None \<and>
        calls (snd (SetupAgent e w)) =
          (calls w @ [groupQuery, Helper (addInstallerToAgentGroup e)]) @
          take (Suc n) RemoveAgent_sequence)"
    using RemoveAgent_calls_fail_fast [of e ?w2] unfolding same base .
  have none: "\<forall>c \<in> set (RemoveAgent_sequence @ [RmInfo]).
      \<forall>u. c \<noteq> Load u \<and> c \<noteq> Enable u \<and> c \<noteq> Start u"
    using rollback_no_forward_unit_operation by blast
  from forward rollback RemoveAgent_sequence_first none show ?thesis by blast
qed

text \<open>
  C4, amended, on the host whose helper fails.
\<close>

theorem SetupAgent_helper_failure_witness:
  "SetupAgent_forward hostHelperFails (logging (SpanStart ''setup_agent'') freshWorld) =
     (Some (Error ''helper failed''),
      \<lparr>calls = [Exec ''id'' [''-Gn'', ''dd-installer''], Helper ''add-installer-to-agent-group''],
       logs = [SpanStart ''setup_agent'']\<rparr>) \<and>
   calls (snd (SetupAgent hostHelperFails freshWorld)) =
     [Exec ''id'' [''-Gn'', ''dd-installer''], Helper ''add-installer-to-agent-group''] @
     RemoveAgent_sequence @ [RmInfo]"
proof -
  have q: "failure hostHelperFails (calls freshWorld) groupQuery = None"
    by (simp add: hostHelperFails_def groupQuery_def)
  have g: "\<not> strings_Contains (stdout hostHelperFails (calls freshWorld) groupQuery) ''dd-agent''"
    by (simp add: hostHelperFails_def Contains_absent)
  have h: "failure hostHelperFails (calls freshWorld @ [groupQuery])
      (Helper (addInstallerToAgentGroup hostHelperFails)) = Some (Error ''helper failed'')"
    by (simp add: hostHelperFails_def)
  have a: "addInstallerToAgentGroup hostHelperFails = ''add-installer-to-agent-group''"
    by (simp add: hostHelperFails_def)
  have forward: "SetupAgent_forward hostHelperFails
      (logging (SpanStart ''setup_agent'') freshWorld) =
     (Some (Error ''helper failed''),
      \<lparr>calls = [Exec ''id'' [''-Gn'', ''dd-installer''], Helper ''add-installer-to-agent-group''],
       logs = [SpanStart ''setup_agent'']\<rparr>)"
    using SetupAgent_helper_failure [OF q g h, THEN conjunct1]
    by (simp add: a freshWorld_def groupQuery_def)
  have run: "calls (snd (SetupAgent hostHelperFails freshWorld)) =
     [Exec ''id'' [''-Gn'', ''dd-installer''], Helper ''add-installer-to-agent-group''] @
     RemoveAgent_sequence @ [RmInfo]"
    by (simp add: run_simps hostHelperFails_def)
  from forward run show ?thesis by blast
qed

text \<open>
  C5. In every run of \<open>RemoveAgent\<close>, whichever calls fail: wherever \<open>stopUnit\<close> is
  called on a stable unit, \<open>stopUnit\<close> has been called on every experimental unit before
  it and is called on no experimental unit after it.
\<close>

theorem RemoveAgent_stops_experimental_first:
  assumes "calls (snd (RemoveAgent e w)) = calls w @ pre @ Stop s # post"
    and "s \<in> set stableUnits"
    and "x \<in> set experimentalUnits"
  shows "Stop x \<in> set pre \<and> Stop x \<notin> set post"
proof -
  let ?later = "map Stop stableUnits @
      concat (map (\<lambda>unit. [Disable unit, Remove unit]) experimentalUnits) @
      concat (map (\<lambda>unit. [Disable unit, Remove unit]) stableUnits) @
      [RmSymlink, RmInfo]"
  obtain n where "calls (snd (RemoveAgent e w)) =
      calls w @ take n (RemoveAgent_sequence @ [RmInfo])"
    using RemoveAgent_calls by blast
  with assms(1) have split: "take n (map Stop experimentalUnits @ ?later) = pre @ Stop s # post"
    by (simp add: RemoveAgent_sequence_split)
  have "Stop s \<notin> set (map Stop experimentalUnits)"
    using assms(2) stable_not_experimental by auto
  with split have "set (map Stop experimentalUnits) \<subseteq> set pre \<and> set post \<subseteq> set ?later"
    by (rule take_append_split)
  moreover have "Stop x \<in> set (map Stop experimentalUnits)" using assms(3) by simp
  moreover have "Stop x \<notin> set ?later" using assms(3) by (rule no_experimental_stop_later)
  ultimately show ?thesis by blast
qed

text \<open>
  C5 on a teardown that fails while purging the experimental units.
\<close>

theorem RemoveAgent_stops_experimental_first_witness:
  "calls (snd (RemoveAgent hostDisableFails freshWorld)) =
     calls freshWorld @
     [Stop agentExp, Stop traceAgentExp, Stop processAgentExp, Stop systemProbeExp,
      Stop securityAgentExp, Stop agentUnit] @
     Stop traceAgentUnit #
     [Stop processAgentUnit, Stop systemProbeUnit, Stop securityAgentUnit,
      Disable agentExp, Remove agentExp, Disable traceAgentExp] \<and>
   traceAgentUnit \<in> set stableUnits \<and>
   securityAgentExp \<in> set experimentalUnits \<and>
   Stop securityAgentExp \<in> set
     [Stop agentExp, Stop traceAgentExp, Stop processAgentExp, Stop systemProbeExp,
      Stop securityAgentExp, Stop agentUnit] \<and>
   Stop securityAgentExp \<notin> set
     [Stop processAgentUnit, Stop systemProbeUnit, Stop securityAgentUnit,
      Disable agentExp, Remove agentExp, Disable traceAgentExp]"
proof -
  let ?pre = "[Stop agentExp, Stop traceAgentExp, Stop processAgentExp, Stop systemProbeExp,
      Stop securityAgentExp, Stop agentUnit]"
  let ?post = "[Stop processAgentUnit, Stop systemProbeUnit, Stop securityAgentUnit,
      Disable agentExp, Remove agentExp, Disable traceAgentExp]"
  have run: "calls (snd (RemoveAgent hostDisableFails freshWorld)) =
     calls freshWorld @ ?pre @ Stop traceAgentUnit # ?post"
    by (simp add: run_simps hostDisableFails_def)
  have s: "traceAgentUnit \<in> set stableUnits" by (simp add: stableUnits_def)
  have x: "securityAgentExp \<in> set experimentalUnits" by (simp add: experimentalUnits_def)
  from run s x RemoveAgent_stops_experimental_first [OF run s x]
  show ?thesis by blast
qed

text \<open>
  C6. \<open>RemoveAgent\<close> is fail-fast. Either every call of the teardown sequence
  succeeds, and then the install info is removed last and nil is returned; or the calls stop
  at the first one that fails, nothing is called after it, and the error returned is that
  call's error wrapped with the action attempted and the name of the unit (for the removal
  of the symlink, with the action).
\<close>

theorem RemoveAgent_fail_fast:
  "(fst (RemoveAgent e w) = None \<and>
    calls (snd (RemoveAgent e w)) = calls w @ RemoveAgent_sequence @ [RmInfo] \<and>
    (\<forall>k<length RemoveAgent_sequence.
       failure e (calls w @ take k RemoveAgent_sequence) (RemoveAgent_sequence ! k) = None)) \<or>
   (\<exists>n err. n < length RemoveAgent_sequence \<and>
      (\<forall>k<n. failure e (calls w @ take k RemoveAgent_sequence) (RemoveAgent_sequence ! k) = None) \<and>
      failure e (calls w @ take n RemoveAgent_sequence) (RemoveAgent_sequence ! n) = Some err \<and>
      calls (snd (RemoveAgent e w)) = calls w @ take (Suc n) RemoveAgent_sequence \<and>
      fst (RemoveAgent e w) = Some (wrapped (RemoveAgent_sequence ! n) err))"
proof (cases "failFast e RemoveAgent_sequence w")
  case (Pair r w')
  show ?thesis
  proof (cases r)
    case None
    with Pair have "w' = w\<lparr>calls := calls w @ RemoveAgent_sequence\<rparr>"
      and ok: "\<forall>k<length RemoveAgent_sequence.
        failure e (calls w @ take k RemoveAgent_sequence) (RemoveAgent_sequence ! k) = None"
      using failFast_None [of e RemoveAgent_sequence w w'] by simp_all
    with Pair None have "fst (RemoveAgent e w) = None"
      "calls (snd (RemoveAgent e w)) = calls w @ RemoveAgent_sequence @ [RmInfo]"
      by (simp_all add: RemoveAgent_failFast)
    with ok show ?thesis by blast
  next
    case (Some x)
    obtain c err where x: "x = (c, err)" by (cases x)
    from Pair Some x obtain n where n: "n < length RemoveAgent_sequence"
      "c = RemoveAgent_sequence ! n"
      "w' = w\<lparr>calls := calls w @ take (Suc n) RemoveAgent_sequence\<rparr>"
      "failure e (calls w @ take n RemoveAgent_sequence) (RemoveAgent_sequence ! n) = Some err"
      "\<forall>k<n. failure e (calls w @ take k RemoveAgent_sequence) (RemoveAgent_sequence ! k) = None"
      using failFast_Some [of e RemoveAgent_sequence w c err w'] by auto
    from Pair Some x n(2,3)
    have "calls (snd (RemoveAgent e w)) = calls w @ take (Suc n) RemoveAgent_sequence"
      "fst (RemoveAgent e w) = Some (wrapped (RemoveAgent_sequence ! n) err)"
      by (simp_all add: RemoveAgent_failFast)
    with n(1,4,5) show ?thesis by blast
  qed
qed

text \<open>
  C6 on a teardown where disabling the experimental trace unit fails.
\<close>

theorem RemoveAgent_fail_fast_witness:
  "fst (RemoveAgent hostDisableFails freshWorld) =
     Some (Error ''Failed to disable datadog-agent-trace-exp.service: exit status 1'') \<and>
   (\<exists>n err. n < length RemoveAgent_sequence \<and>
      failure hostDisableFails (calls freshWorld @ take n RemoveAgent_sequence)
        (RemoveAgent_sequence ! n) = Some err \<and>
      calls (snd (RemoveAgent hostDisableFails freshWorld)) =
        calls freshWorld @ take (Suc n) RemoveAgent_sequence \<and>
      fst (RemoveAgent hostDisableFails freshWorld) =
        Some (wrapped (RemoveAgent_sequence ! n) err))"
proof -
  have run: "fst (RemoveAgent hostDisableFails freshWorld) =
     Some (Error ''Failed to disable datadog-agent-trace-exp.service: exit status 1'')"
    by (simp add: run_simps hostDisableFails_def)
  then have "fst (RemoveAgent hostDisableFails freshWorld) \<noteq> None" by simp
  with RemoveAgent_fail_fast [of hostDisableFails freshWorld]
  have "\<exists>n err. n < length RemoveAgent_sequence \<and>
      failure hostDisableFails (calls freshWorld @ take n RemoveAgent_sequence)
        (RemoveAgent_sequence ! n) = Some err \<and>
      calls (snd (RemoveAgent hostDisableFails freshWorld)) =
        calls freshWorld @ take (Suc n) RemoveAgent_sequence \<and>
      fst (RemoveAgent hostDisableFails freshWorld) =
        Some (wrapped (RemoveAgent_sequence ! n) err)"
    by blast
  with run show ?thesis by blast
qed

text \<open>
  C7, as stated, fails when the query itself fails: on a host where \<open>id\<close> prints
  nothing and exits with an error, the output lacks the group, yet the helper is not
  invoked and the error returned is the one of the query (the helper would have succeeded).
\<close>

theorem setInstallerAgentGroup_query_fails_counterexample:
  "\<not> strings_Contains (stdout hostNoInstaller (calls freshWorld) groupQuery) ''dd-agent'' \<and>
   setInstallerAgentGroup hostNoInstaller freshWorld =
     (Some (Error ''exit status 1''),
      \<lparr>calls = [Exec ''id'' [''-Gn'', ''dd-installer'']], logs = []\<rparr>) \<and>
   failure hostNoInstaller [groupQuery] (Helper (addInstallerToAgentGroup hostNoInstaller)) = None"
  by (simp add: hostNoInstaller_def freshWorld_def setInstallerAgentGroup_def exec_Output_def
        groupQuery_def not_Contains_empty)

text \<open>
  C7, amended. The precondition check queries the groups of the installer. If the query
  fails, its error is returned and the helper is not invoked. If the query succeeds and its
  output contains the target group, the check succeeds after that single call. Otherwise
  the helper is invoked exactly once, after the query, and its result is returned unchanged.
\<close>

theorem setInstallerAgentGroup_outcomes:
  "setInstallerAgentGroup e w =
     (case failure e (calls w) groupQuery of
        Some err \<Rightarrow> (Some err, w\<lparr>calls := calls w @ [groupQuery]\<rparr>)
      | None \<Rightarrow>
          if strings_Contains (stdout e (calls w) groupQuery) ''dd-agent''
          then (None, w\<lparr>calls := calls w @ [groupQuery]\<rparr>)
          else (failure e (calls w @ [groupQuery]) (Helper (addInstallerToAgentGroup e)),
                w\<lparr>calls := calls w @ [groupQuery, Helper (addInstallerToAgentGroup e)]\<rparr>))"
  by (simp add: setInstallerAgentGroup_def exec_Output_def groupQuery_def
        executeHelperCommand_def external_def split: option.splits)

text \<open>
  C8. In every run of the forward sequence of \<open>SetupAgent\<close>, neither \<open>enableUnit\<close>
  nor \<open>startUnit\<close> is called on an experimental unit, and the only call made on an
  experimental unit is \<open>loadUnit\<close>.
\<close>

theorem SetupAgent_forward_experimental_only_loaded:
  assumes "calls (snd (SetupAgent_forward e w)) = calls w @ new"
    and "u \<in> set experimentalUnits"
  shows "Enable u \<notin> set new \<and> Start u \<notin> set new \<and>
         (\<forall>c \<in> set new. unitOf c = Some u \<longrightarrow> c = Load u)"
proof -
  obtain n where "calls (snd (SetupAgent_forward e w)) =
      calls w @ take n (groupCheck_sequence e w @ SetupAgent_sequence)"
    using SetupAgent_forward_calls by blast
  with assms(1) have "new = take n (groupCheck_sequence e w @ SetupAgent_sequence)" by simp
  then have sub: "set new \<subseteq> set (groupCheck_sequence e w @ SetupAgent_sequence)"
    using set_take_subset by metis
  have only: "c = Load u" if "c \<in> set new" "unitOf c = Some u" for c
    using that sub assms(2) forward_sequence_experimental [of c e w u] by blast
  have "Enable u \<notin> set new" using only [of "Enable u"] by auto
  moreover have "Start u \<notin> set new" using only [of "Start u"] by auto
  ultimately show ?thesis using only by blast
qed

text \<open>
  C8 on the healthy host, for the experimental main-agent unit.
\<close>

theorem SetupAgent_forward_experimental_only_loaded_witness:
  "calls (snd (SetupAgent_forward hostHealthy freshWorld)) =
     calls freshWorld @
     [Exec ''id'' [''-Gn'', ''dd-installer''],
      Load agentUnit, Load traceAgentUnit, Load processAgentUnit, Load systemProbeUnit,
      Load securityAgentUnit,
      Load agentExp, Load traceAgentExp, Load processAgentExp, Load systemProbeExp,
      Load securityAgentExp,
      Reload,
      Enable agentUnit, Enable traceAgentUnit, Enable processAgentUnit, Enable systemProbeUnit,
      Enable securityAgentUnit,
      Start agentUnit, Start traceAgentUnit, Start processAgentUnit, Start systemProbeUnit,
      Start securityAgentUnit,
      CreateSymlink, WriteInfo ''installer_package'' ''manual_update''] \<and>
   agentExp \<in> set experimentalUnits \<and>
   Enable agentExp \<notin> set
     [Exec ''id'' [''-Gn'', ''dd-installer''],
      Load agentUnit, Load traceAgentUnit, Load processAgentUnit, Load systemProbeUnit,
      Load securityAgentUnit,
      Load agentExp, Load traceAgentExp, Load processAgentExp, Load systemProbeExp,
      Load securityAgentExp,
      Reload,
      Enable agentUnit, Enable traceAgentUnit, Enable processAgentUnit, Enable systemProbeUnit,
      Enable securityAgentUnit,
      Start agentUnit, Start traceAgentUnit, Start processAgentUnit, Start systemProbeUnit,
      Start securityAgentUnit,
      CreateSymlink, WriteInfo ''installer_package'' ''manual_update''] \<and>
   Start agentExp \<notin> set
     [Exec ''id'' [''-Gn'', ''dd-installer''],
      Load agentUnit, Load traceAgentUnit, Load processAgentUnit, Load systemProbeUnit,
      Load securityAgentUnit,
      Load agentExp, Load traceAgentExp, Load processAgentExp, Load systemProbeExp,
      Load securityAgentExp,
      Reload,
      Enable agentUnit, Enable traceAgentUnit, Enable processAgentUnit, Enable systemProbeUnit,
      Enable securityAgentUnit,
      Start agentUnit, Start traceAgentUnit, Start processAgentUnit, Start systemProbeUnit,
      Start securityAgentUnit,
      CreateSymlink, WriteInfo ''installer_package'' ''manual_update'']"
proof -
  let ?new = "[Exec ''id'' [''-Gn'', ''dd-installer''],
      Load agentUnit, Load traceAgentUnit, Load processAgentUnit, Load systemProbeUnit,
      Load securityAgentUnit,
      Load agentExp, Load traceAgentExp, Load processAgentExp, Load systemProbeExp,
      Load securityAgentExp,
      Reload,
      Enable agentUnit, Enable traceAgentUnit, Enable processAgentUnit, Enable systemProbeUnit,
      Enable securityAgentUnit,
      Start agentUnit, Start traceAgentUnit, Start processAgentUnit, Start systemProbeUnit,
      Start securityAgentUnit,
      CreateSymlink, WriteInfo ''installer_package'' ''manual_update'']"
  have run: "calls (snd (SetupAgent_forward hostHealthy freshWorld)) = calls freshWorld @ ?new"
    by (simp add: run_simps hostHealthy_def)
  have u: "agentExp \<in> set experimentalUnits" by (simp add: experimentalUnits_def)
  from run u SetupAgent_forward_experimental_only_loaded [OF run u]
  show ?thesis by blast
qed

text \<open>
  C9. \<open>StartAgentExperiment\<close> makes exactly one call, \<open>startUnit\<close> on the experimental
  main-agent unit, and \<open>StopAgentExperiment\<close> makes exactly one call, \<open>startUnit\<close> on
  the stable main-agent unit; each returns what that call returned.
\<close>

theorem experiment_controller_single_start:
  "StartAgentExperiment e w =
     (failure e (calls w) (Start agentExp), w\<lparr>calls := calls w @ [Start agentExp]\<rparr>) \<and>
   StopAgentExperiment e w =
     (failure e (calls w) (Start agentUnit), w\<lparr>calls := calls w @ [Start agentUnit]\<rparr>)"
  by (simp add: StartAgentExperiment_def StopAgentExperiment_def startUnit_def external_def)

text \<open>
  C10. The two sequences of the registry have the same length, hold one unit per
  subcomponent in the order main, trace, process, system-probe, security, hold no name
  twice, and the experimental name at each position is the experimental counterpart of the
  stable name at that position.
\<close>

theorem unit_registry_isomorphic:
  "length stableUnits = length experimentalUnits \<and>
   stableUnits =
     map stableUnit [MainAgent, TraceAgent, ProcessAgent, SystemProbe, SecurityAgent] \<and>
   experimentalUnits =
     map experimentalUnit [MainAgent, TraceAgent, ProcessAgent, SystemProbe, SecurityAgent] \<and>
   distinct (stableUnits @ experimentalUnits) \<and>
   experimentalUnits = map experimentalCounterpart stableUnits"
  by (simp add: stableUnits_def experimentalUnits_def experimentalCounterpart_def unit_names)

end
